theory Spec2Isabelle
  imports Complex_Main "HOL-Library.Word"
begin

unbundle bit_operations_syntax

section \<open>The microcontroller as the firmware sees it\<close>

text \<open>
  The firmware of \<^verbatim>\<open>software/NEC_5_buttons/main.c\<close> runs on an ATtiny13A. Its
  variables of type \<^verbatim>\<open>uint8_t\<close> and the 8-bit I/O registers are \<open>8 word\<close>; the C type
  \<^verbatim>\<open>int\<close>, to which every operand of \<^verbatim>\<open>~\<close> and \<^verbatim>\<open>&\<close> is promoted, has 16 bits on
  AVR and is \<open>16 word\<close>.
\<close>

type_synonym uint8_t = "8 word"
type_synonym c_int = "16 word"

text \<open>
  What the firmware does to the outside world is recorded as a list of events. A busy
  wait of \<open>n\<close> microseconds is a \<open>Burst n\<close> when pin PB1 is an output at that moment
  (the 38 kHz carrier of OC0B reaches the IR LED) and a \<open>Pause n\<close> when it is an input
  (LED off). \<open>Sleep\<close> is one call of \<^verbatim>\<open>sleep_mode()\<close>; how long the processor stays
  asleep is decided by the hardware and is not part of the model. Durations are the
  nominal arguments of \<^verbatim>\<open>_delay_us\<close> and \<^verbatim>\<open>_delay_ms\<close>, as they are when the
  build's \<^verbatim>\<open>F_CPU\<close> is the rate of the clock; the execution time of the instructions
  between two delays is not counted.
\<close>

datatype event = Burst nat | Pause nat | Sleep

text \<open>
  The state: the I/O registers that \<^verbatim>\<open>main.c\<close> assigns, the input port as a
  sequence of samples (\<open>pinb s k\<close> is what the \<open>k\<close>-th read of the volatile register
  \<^verbatim>\<open>PINB\<close> returns), the number of reads made so far, and the events so far. The
  sleep control bits, which only the library macros \<^verbatim>\<open>set_sleep_mode\<close> and
  \<^verbatim>\<open>sleep_mode\<close> touch, are not part of the state.
\<close>

record mcu =
  DDRB :: uint8_t
  PORTB :: uint8_t
  TCCR0A :: uint8_t
  TCCR0B :: uint8_t
  OCR0A :: uint8_t
  OCR0B :: uint8_t
  GIMSK :: uint8_t
  PCMSK :: uint8_t
  SREG :: uint8_t
  ADCSRA :: uint8_t
  ACSR :: uint8_t
  PRR :: uint8_t
  pinb :: "nat \<Rightarrow> uint8_t"
  reads :: nat
  out :: "event list"

subsection \<open>Constants of the source\<close>

definition ADDR :: c_int where "ADDR = 0x04"
definition KEY1 :: c_int where "KEY1 = 0x02"
definition KEY2 :: c_int where "KEY2 = 0x00"
definition KEY3 :: c_int where "KEY3 = 0x03"
definition KEY4 :: c_int where "KEY4 = 0x01"
definition KEY5 :: c_int where "KEY5 = 0x08"

definition TOP :: c_int where "TOP = 31"
definition DUTY :: c_int where "DUTY = 7"

subsection \<open>Switching the LED and waiting\<close>

definition IRon :: "mcu \<Rightarrow> mcu" where
  "IRon s = s\<lparr>DDRB := DDRB s OR 0b00000010\<rparr>"

definition IRoff :: "mcu \<Rightarrow> mcu" where
  "IRoff s = s\<lparr>DDRB := DDRB s AND 0b11111101\<rparr>"

definition delay_us :: "nat \<Rightarrow> mcu \<Rightarrow> mcu" where
  "delay_us n s = s\<lparr>out := out s @ [if bit (DDRB s) 1 then Burst n else Pause n]\<rparr>"

definition delay_ms :: "nat \<Rightarrow> mcu \<Rightarrow> mcu" where
  "delay_ms n s = delay_us (1000 * n) s"

definition startPulse :: "mcu \<Rightarrow> mcu" where
  "startPulse s = delay_us 4500 (IRoff (delay_us 9000 (IRon s)))"

definition repeatPulse :: "mcu \<Rightarrow> mcu" where
  "repeatPulse s = delay_us 2250 (IRoff (delay_us 9000 (IRon s)))"

definition normalPulse :: "mcu \<Rightarrow> mcu" where
  "normalPulse s = delay_us 557 (IRoff (delay_us 562 (IRon s)))"

definition bit1Pause :: "mcu \<Rightarrow> mcu" where
  "bit1Pause s = delay_us 1120 s"

definition repeatCode :: "mcu \<Rightarrow> mcu" where
  "repeatCode s = delay_ms 56 (normalPulse (repeatPulse (delay_ms 40 s)))"

subsection \<open>Sending a byte and a frame\<close>

text \<open>
  \<^verbatim>\<open>for (uint8_t i=8; i; i--, value>>=1) { normalPulse(); if (value & 1) bit1Pause(); }\<close>
  The loop runs while the 8-bit counter is not zero; the counter and the value are
  updated after the body. \<^verbatim>\<open>value & 1\<close> and \<^verbatim>\<open>value >> 1\<close> are computed on the
  promoted, non-negative value and give the same result at 8 bits.
\<close>

function sendByte_loop :: "uint8_t \<Rightarrow> uint8_t \<Rightarrow> mcu \<Rightarrow> mcu" where
  "sendByte_loop i v s =
     (if i \<noteq> 0
      then sendByte_loop (i - 1) (drop_bit 1 v)
             (let s1 = normalPulse s in if v AND 1 \<noteq> 0 then bit1Pause s1 else s1)
      else s)"
  by pat_completeness auto
termination
  by (relation "measure (\<lambda>(i, v, s). unat i)") (auto simp: unat_minus_one unat_gt_0)

declare sendByte_loop.simps [simp del]

definition sendByte :: "uint8_t \<Rightarrow> mcu \<Rightarrow> mcu" where
  "sendByte v s = sendByte_loop 8 v s"

text \<open>
  The argument of \<^verbatim>\<open>sendByte\<close> is converted to \<^verbatim>\<open>uint8_t\<close> (\<open>ucast\<close> keeps the low
  8 bits). \<^verbatim>\<open>~ADDR\<close> complements an \<^verbatim>\<open>int\<close> constant, \<^verbatim>\<open>~code\<close> the parameter
  promoted to \<^verbatim>\<open>int\<close>.
\<close>

definition sendCode :: "uint8_t \<Rightarrow> mcu \<Rightarrow> mcu" where
  "sendCode code s =
     (let s1 = startPulse s;
          s2 = sendByte (ucast ADDR) s1;
          s3 = sendByte (ucast (NOT ADDR)) s2;
          s4 = sendByte code s3;
          s5 = sendByte (ucast (NOT (ucast code :: c_int))) s4
      in normalPulse s5)"

subsection \<open>Reading the buttons, sleeping, and the main loop\<close>

definition read_PINB :: "mcu \<Rightarrow> uint8_t \<times> mcu" where
  "read_PINB s = (pinb s (reads s), s\<lparr>reads := Suc (reads s)\<rparr>)"

text \<open>\<^verbatim>\<open>~PINB & 0b00111101\<close>, an \<^verbatim>\<open>int\<close>: the pressed buttons (the lines read low).\<close>

definition pressed :: "uint8_t \<Rightarrow> c_int" where
  "pressed p = NOT (ucast p) AND 0b00111101"

definition sleep_mode :: "mcu \<Rightarrow> mcu" where
  "sleep_mode s = s\<lparr>out := out s @ [Sleep]\<rparr>"

text \<open>
  \<^verbatim>\<open>while (~PINB & 0b00111101) repeatCode();\<close>
  The loop runs for as long as the port reads some line low, which may be forever:
  \<open>None\<close> is the loop that never ends.
\<close>

partial_function (option) repeat_loop :: "mcu \<Rightarrow> mcu option" where
  "repeat_loop s =
     (case read_PINB s of
        (p, s1) \<Rightarrow> if pressed p \<noteq> 0 then repeat_loop (repeatCode s1) else Some s1)"

text \<open>Lines 115 to 133 of \<^verbatim>\<open>main\<close>: the registers are assigned once.\<close>

definition main_init :: "mcu \<Rightarrow> mcu" where
  "main_init s =
     s\<lparr>DDRB := 0b00000000,
       PORTB := 0b00111101,
       TCCR0A := 0b00100011,
       TCCR0B := 0b00001001,
       OCR0A := ucast TOP,
       OCR0B := ucast DUTY,
       GIMSK := 0b00100000,
       PCMSK := 0b00111101,
       SREG := SREG s OR 0b10000000,
       ADCSRA := 0b00000000,
       ACSR := 0b10000000,
       PRR := 0b00000001\<rparr>"

text \<open>One pass through the body of \<^verbatim>\<open>while(1)\<close>, lines 137 to 148.\<close>

definition main_body :: "mcu \<Rightarrow> mcu option" where
  "main_body s =
     (let s1 = sleep_mode s;
          s2 = delay_ms 1 s1
      in case read_PINB s2 of
           (p, s3) \<Rightarrow>
             let buttons = (ucast (pressed p) :: uint8_t);
                 s4 = (if buttons = 0b00000001 then sendCode (ucast KEY1) s3
                       else if buttons = 0b00000100 then sendCode (ucast KEY2) s3
                       else if buttons = 0b00001000 then sendCode (ucast KEY3) s3
                       else if buttons = 0b00010000 then sendCode (ucast KEY4) s3
                       else if buttons = 0b00100000 then sendCode (ucast KEY5) s3
                       else s3)
             in repeat_loop s4)"

partial_function (option) main_loop :: "mcu \<Rightarrow> mcu option" where
  "main_loop s = Option.bind (main_body s) main_loop"

definition main :: "mcu \<Rightarrow> mcu option" where
  "main s = main_loop (main_init s)"

text \<open>
  The state after reset, for a given sequence of port samples: the I/O registers of
  the model are zero and nothing has happened yet.
\<close>

definition power_on :: "(nat \<Rightarrow> uint8_t) \<Rightarrow> mcu" where
  "power_on samples =
     \<lparr>DDRB = 0, PORTB = 0, TCCR0A = 0, TCCR0B = 0, OCR0A = 0, OCR0B = 0, GIMSK = 0,
      PCMSK = 0, SREG = 0, ADCSRA = 0, ACSR = 0, PRR = 0,
      pinb = samples, reads = 0, out = []\<rparr>"

section \<open>The signal the specification describes\<close>

text \<open>
  The NEC signal in the words of the specification, as event lists: the start marker, the
  repeat marker, a data bit (a burst of one unit, then a pause that is longer for a 1),
  and a byte as its eight bits, least significant first. The pause after a burst is what
  the source waits: 557 microseconds, extended by 1120 for a 1.
\<close>

definition start_marker :: "event list" where
  "start_marker = [Burst 9000, Pause 4500]"

definition repeat_marker :: "event list" where
  "repeat_marker = [Burst 9000, Pause 2250]"

definition bit_signal :: "bool \<Rightarrow> event list" where
  "bit_signal b = [Burst 562, Pause 557] @ (if b then [Pause 1120] else [])"

definition byte_signal :: "uint8_t \<Rightarrow> event list" where
  "byte_signal v = concat (map (\<lambda>i. bit_signal (bit v i)) [0..<8])"

text \<open>
  One pass of the repeat loop: the inter-repeat delay, the repeat frame (the repeat marker
  and a stop burst, no data), and the post-repeat delay.
\<close>

definition repeat_cycle :: "event list" where
  "repeat_cycle = [Pause 40000] @ repeat_marker @ [Burst 562, Pause 557] @ [Pause 56000]"

text \<open>The time an event list takes, in microseconds. Time asleep is not counted.\<close>

fun duration :: "event list \<Rightarrow> nat" where
  "duration [] = 0"
| "duration (Burst n # es) = n + duration es"
| "duration (Pause n # es) = n + duration es"
| "duration (Sleep # es) = duration es"

text \<open>
  What a receiver sees of an event list: each burst with the length of the silence that
  follows it (consecutive pauses add up).
\<close>

fun silence :: "event list \<Rightarrow> nat" where
  "silence (Pause n # es) = n + silence es"
| "silence es = 0"

fun pulses :: "event list \<Rightarrow> (nat \<times> nat) list" where
  "pulses [] = []"
| "pulses (Burst n # es) = (n, silence es) # pulses es"
| "pulses (e # es) = pulses es"

text \<open>
  The times, counted in microseconds from \<open>t\<close>, at which a leading burst of 9000
  microseconds begins. Time asleep is not counted.
\<close>

fun lead_starts :: "nat \<Rightarrow> event list \<Rightarrow> nat list" where
  "lead_starts t [] = []"
| "lead_starts t (Burst n # es) = (if n = 9000 then [t] else []) @ lead_starts (t + n) es"
| "lead_starts t (Pause n # es) = lead_starts (t + n) es"
| "lead_starts t (Sleep # es) = lead_starts t es"

text \<open>
  Two scenarios for the port. In the first, buttons 1 and 2 (PB0 and PB2) are both down at
  the scan and at the first check of the repeat loop and released afterwards. In the
  second, button 5 (PB5) alone is down for the scan and two checks.
\<close>

definition two_buttons :: "nat \<Rightarrow> uint8_t" where
  "two_buttons k = (if k < 2 then 0b00111000 else 0b00111101)"

definition hold_key5 :: "nat \<Rightarrow> uint8_t" where
  "hold_key5 k = (if k < 3 then 0b00011101 else 0b00111101)"

section \<open>What each operation does to the state\<close>

subsection \<open>The LED bit of the direction register\<close>

lemma led_off_on: "((x::uint8_t) OR 2) AND 253 = x AND 253"
proof -
  have "(253::uint8_t) = NOT 2" by simp
  then show ?thesis by (simp add: bit.conj_disj_distrib2)
qed

lemma led_off_idem: "((x::uint8_t) AND 253) AND 253 = x AND 253"
  by (simp add: and.assoc)

lemma led_bit_on: "bit ((x::uint8_t) OR 2) (Suc 0)"
  by (simp add: bit_simps)

lemma led_bit_off: "\<not> bit ((x::uint8_t) AND 253) (Suc 0)"
  by (simp add: bit_simps)

lemma led_off_same: "\<not> bit (x::uint8_t) (Suc 0) \<Longrightarrow> x AND 253 = x"
proof -
  assume off: "\<not> bit x (Suc 0)"
  have e: "(253::uint8_t) = NOT 2" by simp
  have r: "x AND NOT 2 = x"
  proof (rule bit_word_eqI)
    fix n assume "n < LENGTH(8)"
    then show "bit (x AND NOT 2) n = bit x n"
      using off by (simp only: bit_and_iff bit_not_iff bit_2_iff) (auto simp: possible_bit_def)
  qed
  show ?thesis by (simp only: e r)
qed

lemmas led = led_off_on led_off_idem led_bit_on led_bit_off

subsection \<open>Pulses, bytes and frames\<close>

text \<open>
  Every pulse macro switches the LED on, waits, switches it off and waits again, so the
  events it adds do not depend on the state it starts in, and it leaves the LED off.
\<close>

lemma startPulse_eq:
  "startPulse s = s\<lparr>DDRB := DDRB s AND 253, out := out s @ [Burst 9000, Pause 4500]\<rparr>"
  by (simp add: startPulse_def IRon_def IRoff_def delay_us_def led)

lemma repeatPulse_eq:
  "repeatPulse s = s\<lparr>DDRB := DDRB s AND 253, out := out s @ [Burst 9000, Pause 2250]\<rparr>"
  by (simp add: repeatPulse_def IRon_def IRoff_def delay_us_def led)

lemma normalPulse_eq:
  "normalPulse s = s\<lparr>DDRB := DDRB s AND 253, out := out s @ [Burst 562, Pause 557]\<rparr>"
  by (simp add: normalPulse_def IRon_def IRoff_def delay_us_def led)

lemma bit_step_eq:
  "(let s1 = normalPulse s in if v AND 1 \<noteq> 0 then bit1Pause s1 else s1) =
     s\<lparr>DDRB := DDRB s AND 253, out := out s @ bit_signal (bit (v::uint8_t) 0)\<rparr>"
  by (simp add: normalPulse_eq bit1Pause_def delay_us_def led bit_signal_def
      and_one_eq mod_2_eq_odd bit_0)

text \<open>
  The bit loop, by induction on the value of its counter: started at \<open>n\<close>, it emits the
  signals of the \<open>n\<close> low bits, lowest first.
\<close>

lemma sendByte_loop_0: "sendByte_loop 0 v s = s"
  by (subst sendByte_loop.simps) simp

lemma sendByte_loop_step:
  "i \<noteq> 0 \<Longrightarrow>
   sendByte_loop i v s =
     sendByte_loop (i - 1) (drop_bit 1 v)
       (s\<lparr>DDRB := DDRB s AND 253, out := out s @ bit_signal (bit v 0)\<rparr>)"
  by (subst sendByte_loop.simps) (simp only: bit_step_eq if_True simp_thms)

lemma sendByte_loop_eq:
  "unat i = Suc n \<Longrightarrow>
   sendByte_loop i v s =
     s\<lparr>DDRB := DDRB s AND 253,
       out := out s @ concat (map (\<lambda>k. bit_signal (bit v k)) [0..<Suc n])\<rparr>"
proof (induction n arbitrary: i v s)
  case 0
  then have i: "i = 1" by (metis One_nat_def unat_1 word_unat_eq_iff)
  show ?case
    by (simp add: i sendByte_loop_step sendByte_loop_0)
next
  case (Suc n)
  then have nz: "i \<noteq> 0" by auto
  with Suc.prems have u: "unat (i - 1) = Suc n" by (simp add: unat_minus_one)
  have sh: "map (\<lambda>k. bit_signal (bit v k)) [0..<Suc (Suc n)] =
     bit_signal (bit v 0) # map (\<lambda>k. bit_signal (bit (drop_bit 1 v) k)) [0..<Suc n]"
    by (simp only: map_upt_Suc[of _ "Suc n"]) (simp add: bit_drop_bit_eq)
  show ?case
    by (simp only: sendByte_loop_step[OF nz] Suc.IH[OF u] sh) (simp add: led)
qed

lemma sendByte_eq:
  "sendByte v s = s\<lparr>DDRB := DDRB s AND 253, out := out s @ byte_signal v\<rparr>"
proof -
  have "unat (8::uint8_t) = Suc 7" by simp
  from sendByte_loop_eq[OF this] show ?thesis
    by (simp add: sendByte_def byte_signal_def)
qed

lemma inverse_promoted: "(ucast (NOT (ucast (v::uint8_t) :: c_int)) :: uint8_t) = NOT v"
  by (rule bit_word_eqI) (auto simp: bit_simps)

lemma addr_byte: "(ucast ADDR :: uint8_t) = 4"
  by (simp add: ADDR_def)

lemma addr_inverse_byte: "(ucast (NOT ADDR) :: uint8_t) = 251"
  by (simp add: ADDR_def)

lemma sendCode_eq:
  "sendCode c s =
     s\<lparr>DDRB := DDRB s AND 253,
       out := out s @ start_marker @ byte_signal 4 @ byte_signal 251 @ byte_signal c @
              byte_signal (NOT c) @ [Burst 562, Pause 557]\<rparr>"
  by (simp add: sendCode_def Let_def startPulse_eq sendByte_eq normalPulse_eq led
      inverse_promoted addr_byte addr_inverse_byte start_marker_def)

lemma repeatCode_eq:
  "\<not> bit (DDRB s) (Suc 0) \<Longrightarrow>
   repeatCode s =
     s\<lparr>out := out s @ [Pause 40000, Burst 9000, Pause 2250, Burst 562, Pause 557, Pause 56000]\<rparr>"
  by (simp add: repeatCode_def delay_ms_def delay_us_def repeatPulse_eq normalPulse_eq led
      led_off_same)

subsection \<open>What a receiver sees of a byte\<close>

lemma silence_bits:
  "silence es = 0 \<Longrightarrow> silence (concat (map bit_signal bs) @ es) = 0"
  by (cases bs) (simp_all add: bit_signal_def)

lemma pulses_bit_signal:
  "silence es = 0 \<Longrightarrow>
   pulses (bit_signal b @ es) = (562, if b then 557 + 1120 else 557) # pulses es"
  by (simp add: bit_signal_def)

lemma pulses_bits:
  "silence es = 0 \<Longrightarrow>
   pulses (concat (map bit_signal bs) @ es) =
     map (\<lambda>b. (562, if b then 557 + 1120 else 557)) bs @ pulses es"
proof (induction bs)
  case Nil
  show ?case by simp
next
  case (Cons b bs)
  from Cons.prems have "silence (concat (map bit_signal bs) @ es) = 0"
    by (rule silence_bits)
  from pulses_bit_signal[OF this, of b] Cons.IH[OF Cons.prems] show ?case by simp
qed

lemma upt_8: "[0..<8] = [0, 1, 2, 3, 4, 5, 6, 7::nat]"
  by code_simp

lemma byte_signal_bits: "byte_signal v = concat (map bit_signal (map (bit v) [0..<8]))"
  by (simp add: byte_signal_def comp_def)

lemma silence_byte_signal: "silence (byte_signal v @ es) = 0"
  by (simp add: byte_signal_def upt_8 bit_signal_def)

lemma pulses_byte_signal:
  "silence es = 0 \<Longrightarrow>
   pulses (byte_signal v @ es) =
     map (\<lambda>i. (562, if bit v i then 557 + 1120 else 557)) [0..<8] @ pulses es"
  by (subst byte_signal_bits, subst pulses_bits) (simp_all add: comp_def)

lemma pulses_byte_signal_end:
  "pulses (byte_signal v) = map (\<lambda>i. (562, if bit v i then 557 + 1120 else 557)) [0..<8]"
  using pulses_byte_signal[of "[]" v] by simp

text \<open>Different bytes have different signals: the pulses give the bits back.\<close>

lemma byte_signal_inj: "byte_signal v = byte_signal w \<Longrightarrow> v = w"
proof (rule bit_word_eqI)
  fix n assume eq: "byte_signal v = byte_signal w" and n: "n < LENGTH(8)"
  from eq have "pulses (byte_signal v) = pulses (byte_signal w)" by simp
  then have "map (\<lambda>i. (562::nat, if bit v i then 557 + 1120 else (557::nat))) [0..<8] =
             map (\<lambda>i. (562, if bit w i then 557 + 1120 else 557)) [0..<8]"
    by (simp only: pulses_byte_signal_end)
  then have "\<forall>i\<in>set [0..<8]. (562::nat, if bit v i then 557 + 1120 else (557::nat)) =
                              (562, if bit w i then 557 + 1120 else 557)"
    by (simp only: map_eq_conv)
  moreover from n have "n \<in> set [0..<8]" by simp
  ultimately have "(562::nat, if bit v n then 557 + 1120 else (557::nat)) =
                   (562, if bit w n then 557 + 1120 else 557)"
    by blast
  then show "bit v n = bit w n" by (simp split: if_splits)
qed

lemma complement_4: "(- 5 :: uint8_t) = 251"
  by simp

lemma complement_value: "unat (NOT c) = 255 - unat (c::uint8_t)"
proof -
  have "NOT c = 255 - c" by (simp add: not_eq_complement)
  moreover have "c \<le> 255"
    using unsigned_less[of c, where 'a=nat] by (simp add: word_le_nat_alt)
  ultimately show ?thesis by (simp add: unat_sub)
qed

subsection \<open>The repeat loop and the main loop\<close>

lemma repeatCode_cycle:
  "\<not> bit (DDRB s) (Suc 0) \<Longrightarrow> repeatCode s = s\<lparr>out := out s @ repeat_cycle\<rparr>"
  by (simp add: repeatCode_eq repeat_cycle_def repeat_marker_def)

lemma repeatCode_keeps:
  "pinb (repeatCode s) = pinb s" "reads (repeatCode s) = reads s"
  "OCR0A (repeatCode s) = OCR0A s" "OCR0B (repeatCode s) = OCR0B s"
  "TCCR0A (repeatCode s) = TCCR0A s" "TCCR0B (repeatCode s) = TCCR0B s"
  by (simp_all add: repeatCode_def delay_ms_def delay_us_def repeatPulse_eq normalPulse_eq)

lemma repeat_loop_released:
  "pressed (pinb s (reads s)) = 0 \<Longrightarrow> repeat_loop s = Some (s\<lparr>reads := Suc (reads s)\<rparr>)"
  by (subst repeat_loop.simps) (simp add: read_PINB_def)

lemma repeat_loop_pressed:
  "pressed (pinb s (reads s)) \<noteq> 0 \<Longrightarrow>
   repeat_loop s = repeat_loop (repeatCode (s\<lparr>reads := Suc (reads s)\<rparr>))"
  by (subst repeat_loop.simps) (simp add: read_PINB_def)

lemma repeat_loop_held:
  "\<forall>j<k. pressed (pinb s (reads s + j)) \<noteq> 0 \<Longrightarrow> \<not> bit (DDRB s) (Suc 0) \<Longrightarrow>
   repeat_loop s =
     repeat_loop (s\<lparr>reads := reads s + k, out := out s @ concat (replicate k repeat_cycle)\<rparr>)"
proof (induction k arbitrary: s)
  case 0
  show ?case by simp
next
  case (Suc k)
  let ?s' = "s\<lparr>reads := Suc (reads s), out := out s @ repeat_cycle\<rparr>"
  from Suc.prems have p0: "pressed (pinb s (reads s)) \<noteq> 0" by auto
  have step: "repeat_loop s = repeat_loop ?s'"
    using Suc.prems(2) by (simp add: repeat_loop_pressed[OF p0] repeatCode_cycle)
  have held: "\<forall>j<k. pressed (pinb ?s' (reads ?s' + j)) \<noteq> 0"
    using Suc.prems(1) by auto
  have off: "\<not> bit (DDRB ?s') (Suc 0)"
    using Suc.prems(2) by simp
  show ?case
    by (simp add: step Suc.IH[OF held off])
qed

text \<open>
  The repeat loop returns only if some check reads all lines high; with a button stuck it
  runs forever. The main loop never returns at all.
\<close>

lemma repeat_loop_returns:
  assumes ret: "repeat_loop s = Some s'"
  shows "\<exists>j. pressed (pinb s (reads s + j)) = 0"
proof (rule repeat_loop.raw_induct
    [where P = "\<lambda>s y. \<exists>j. pressed (pinb s (reads s + j)) = 0", OF _ ret])
  fix f :: "mcu \<Rightarrow> mcu option" and s y
  assume IH: "\<And>x y. f x = Some y \<Longrightarrow> \<exists>j. pressed (pinb x (reads x + j)) = 0"
    and eq: "(case read_PINB s of
               (p, s1) \<Rightarrow> if pressed p \<noteq> 0 then f (repeatCode s1) else Some s1) = Some y"
  show "\<exists>j. pressed (pinb s (reads s + j)) = 0"
  proof (cases "pressed (pinb s (reads s)) = 0")
    case True
    then have "pressed (pinb s (reads s + 0)) = 0" by simp
    then show ?thesis by blast
  next
    case False
    with eq have "f (repeatCode (s\<lparr>reads := Suc (reads s)\<rparr>)) = Some y"
      by (simp add: read_PINB_def)
    from IH[OF this] obtain j where "pressed (pinb s (Suc (reads s) + j)) = 0"
      by (auto simp: repeatCode_keeps)
    then have "pressed (pinb s (reads s + Suc j)) = 0" by simp
    then show ?thesis by blast
  qed
qed

lemma repeat_loop_forever:
  "\<forall>j. pressed (pinb s (reads s + j)) \<noteq> 0 \<Longrightarrow> repeat_loop s = None"
  using repeat_loop_returns[of s] by (cases "repeat_loop s") auto

lemma main_loop_never_returns: "main_loop s = None"
proof (cases "main_loop s")
  case None
  then show ?thesis .
next
  case (Some s')
  have False
  proof (rule main_loop.raw_induct[where P = "\<lambda>s y. False", OF _ Some])
    fix f :: "mcu \<Rightarrow> mcu option" and s y
    assume IH: "\<And>x y. f x = Some y \<Longrightarrow> False"
      and eq: "Option.bind (main_body s) f = Some y"
    from eq obtain x where "f x = Some y" by (auto simp: bind_eq_Some_conv)
    with IH show False by blast
  qed
  then show ?thesis ..
qed

lemma main_never_returns: "main s = None"
  by (simp add: main_def main_loop_never_returns)

text \<open>Nothing after the initialisation writes the timer registers.\<close>

lemma repeat_loop_keeps_timer:
  assumes ret: "repeat_loop s = Some s'"
  shows "OCR0A s' = OCR0A s \<and> OCR0B s' = OCR0B s \<and> TCCR0A s' = TCCR0A s \<and> TCCR0B s' = TCCR0B s"
proof (rule repeat_loop.raw_induct
    [where P = "\<lambda>s s'. OCR0A s' = OCR0A s \<and> OCR0B s' = OCR0B s \<and>
                        TCCR0A s' = TCCR0A s \<and> TCCR0B s' = TCCR0B s", OF _ ret])
  fix f :: "mcu \<Rightarrow> mcu option" and s y
  assume IH: "\<And>x y. f x = Some y \<Longrightarrow>
      OCR0A y = OCR0A x \<and> OCR0B y = OCR0B x \<and> TCCR0A y = TCCR0A x \<and> TCCR0B y = TCCR0B x"
    and eq: "(case read_PINB s of
               (p, s1) \<Rightarrow> if pressed p \<noteq> 0 then f (repeatCode s1) else Some s1) = Some y"
  show "OCR0A y = OCR0A s \<and> OCR0B y = OCR0B s \<and> TCCR0A y = TCCR0A s \<and> TCCR0B y = TCCR0B s"
  proof (cases "pressed (pinb s (reads s)) = 0")
    case True
    with eq show ?thesis by (auto simp: read_PINB_def)
  next
    case False
    with eq have "f (repeatCode (s\<lparr>reads := Suc (reads s)\<rparr>)) = Some y"
      by (simp add: read_PINB_def)
    from IH[OF this] show ?thesis by (simp add: repeatCode_keeps)
  qed
qed

text \<open>
  A pass of the main loop, in order: sleep, the debounce delay of 1 ms, one read of the
  port, a frame if the buttons read are one of the five patterns, and the repeat loop.
\<close>

lemma main_body_eq:
  "\<not> bit (DDRB s) (Suc 0) \<Longrightarrow>
   main_body s =
     (let s3 = s\<lparr>out := out s @ [Sleep, Pause 1000], reads := Suc (reads s)\<rparr>;
          buttons = (ucast (pressed (pinb s (reads s))) :: uint8_t)
      in repeat_loop
           (if buttons = 1 then sendCode 2 s3
            else if buttons = 4 then sendCode 0 s3
            else if buttons = 8 then sendCode 3 s3
            else if buttons = 16 then sendCode 1 s3
            else if buttons = 32 then sendCode 8 s3
            else s3))"
  by (simp add: main_body_def sleep_mode_def delay_ms_def delay_us_def read_PINB_def Let_def
      KEY1_def KEY2_def KEY3_def KEY4_def KEY5_def)

lemma main_body_keeps_timer:
  assumes ret: "main_body s = Some s'"
  shows "OCR0A s' = OCR0A s \<and> OCR0B s' = OCR0B s \<and> TCCR0A s' = TCCR0A s \<and> TCCR0B s' = TCCR0B s"
  using ret
  by (auto simp: main_body_def sleep_mode_def delay_ms_def delay_us_def read_PINB_def Let_def
      sendCode_eq split: if_splits dest!: repeat_loop_keeps_timer)

subsection \<open>Counting the pulses of a byte and of a frame\<close>

lemma sendByte_loop_count:
  "length (pulses (out (sendByte_loop i v (s\<lparr>out := []\<rparr>)))) = unat i"
proof (cases "unat i")
  case 0
  then have "i = 0" by (simp add: unat_eq_0)
  then show ?thesis by (simp add: sendByte_loop_0)
next
  case (Suc n)
  have "pulses (concat (map (\<lambda>k. bit_signal (bit v k)) [0..<Suc n])) =
    map (\<lambda>b. (562, if b then 557 + 1120 else 557)) (map (bit v) [0..<Suc n])"
    using pulses_bits[of "[]" "map (bit v) [0..<Suc n]"] by (simp add: comp_def)
  then show ?thesis
    by (simp add: sendByte_loop_eq[OF Suc] Suc del: upt_Suc)
qed

lemma pulses_sendCode:
  "pulses (out (sendCode c (s\<lparr>out := []\<rparr>))) =
     (9000, 4500) #
     map (\<lambda>i. (562, if bit (4::uint8_t) i then 557 + 1120 else 557)) [0..<8] @
     map (\<lambda>i. (562, if bit (251::uint8_t) i then 557 + 1120 else 557)) [0..<8] @
     map (\<lambda>i. (562, if bit c i then 557 + 1120 else 557)) [0..<8] @
     map (\<lambda>i. (562, if bit (NOT c) i then 557 + 1120 else 557)) [0..<8] @
     [(562, 557)]"
  by (simp add: sendCode_eq start_marker_def silence_byte_signal pulses_byte_signal)

subsection \<open>A button held for some checks and then released\<close>

lemma repeat_loop_held_released:
  assumes off: "\<not> bit (DDRB s) (Suc 0)"
    and held: "\<forall>j<k. pressed (pinb s (reads s + j)) \<noteq> 0"
    and released: "pressed (pinb s (reads s + k)) = 0"
  shows "repeat_loop s =
     Some (s\<lparr>reads := reads s + k + 1, out := out s @ concat (replicate k repeat_cycle)\<rparr>)"
  by (simp add: repeat_loop_held[OF held off] repeat_loop_released released)

lemma main_body_unmapped:
  assumes off: "\<not> bit (DDRB s) (Suc 0)"
    and unmapped: "ucast (pressed (pinb s (reads s))) \<notin> {1, 4, 8, 16, 32 :: uint8_t}"
    and held: "\<forall>j<k. pressed (pinb s (Suc (reads s) + j)) \<noteq> 0"
    and released: "pressed (pinb s (Suc (reads s) + k)) = 0"
  shows "main_body s =
     Some (s\<lparr>reads := reads s + k + 2,
             out := out s @ [Sleep, Pause 1000] @ concat (replicate k repeat_cycle)\<rparr>)"
proof -
  let ?s3 = "s\<lparr>out := out s @ [Sleep, Pause 1000], reads := Suc (reads s)\<rparr>"
  from unmapped have "main_body s = repeat_loop ?s3"
    by (simp add: main_body_eq[OF off] Let_def)
  moreover have "repeat_loop ?s3 =
     Some (?s3\<lparr>reads := reads ?s3 + k + 1, out := out ?s3 @ concat (replicate k repeat_cycle)\<rparr>)"
    using off held released by (intro repeat_loop_held_released) simp_all
  ultimately show ?thesis by simp
qed

lemma lead_starts_cycles:
  "lead_starts t (concat (replicate k repeat_cycle)) = map (\<lambda>j. t + 40000 + j * 108369) [0..<k]"
proof (induction k arbitrary: t)
  case 0
  show ?case by simp
next
  case (Suc k)
  have "lead_starts t (repeat_cycle @ es) = (t + 40000) # lead_starts (t + 108369) es" for es
    by (simp add: repeat_cycle_def repeat_marker_def add_ac)
  then show ?case
    by (simp add: Suc.IH map_upt_Suc add_ac del: upt_Suc)
qed

subsection \<open>The LED is off between the operations\<close>

lemma led_off_after_init: "\<not> bit (DDRB (main_init s)) (Suc 0)"
  by (simp add: main_init_def)

lemma repeatCode_DDRB: "DDRB (repeatCode s) = DDRB s AND 253"
  by (simp add: repeatCode_def delay_ms_def delay_us_def repeatPulse_eq normalPulse_eq led)

lemma repeat_loop_led_off:
  assumes ret: "repeat_loop s = Some s'"
  shows "\<not> bit (DDRB s) (Suc 0) \<longrightarrow> \<not> bit (DDRB s') (Suc 0)"
proof (rule repeat_loop.raw_induct
    [where P = "\<lambda>s s'. \<not> bit (DDRB s) (Suc 0) \<longrightarrow> \<not> bit (DDRB s') (Suc 0)", OF _ ret])
  fix f :: "mcu \<Rightarrow> mcu option" and s y
  assume IH: "\<And>x y. f x = Some y \<Longrightarrow> \<not> bit (DDRB x) (Suc 0) \<longrightarrow> \<not> bit (DDRB y) (Suc 0)"
    and eq: "(case read_PINB s of
               (p, s1) \<Rightarrow> if pressed p \<noteq> 0 then f (repeatCode s1) else Some s1) = Some y"
  show "\<not> bit (DDRB s) (Suc 0) \<longrightarrow> \<not> bit (DDRB y) (Suc 0)"
  proof (cases "pressed (pinb s (reads s)) = 0")
    case True
    with eq show ?thesis by (auto simp: read_PINB_def)
  next
    case False
    with eq have "f (repeatCode (s\<lparr>reads := Suc (reads s)\<rparr>)) = Some y"
      by (simp add: read_PINB_def)
    from IH[OF this] show ?thesis by (simp add: repeatCode_DDRB led)
  qed
qed

lemma main_body_led_off:
  assumes off: "\<not> bit (DDRB s) (Suc 0)" and ret: "main_body s = Some s'"
  shows "\<not> bit (DDRB s') (Suc 0)"
proof -
  from ret obtain s4 where r: "repeat_loop s4 = Some s'" and o: "\<not> bit (DDRB s4) (Suc 0)"
    using off by (auto simp: main_body_eq Let_def sendCode_eq led split: if_splits)
  from repeat_loop_led_off[OF r] o show ?thesis by simp
qed

subsection \<open>The two scenarios\<close>

lemma pressed_two_buttons: "pressed (two_buttons k) = (if k < 2 then 5 else 0)"
  by (simp add: pressed_def two_buttons_def)

lemma pressed_hold_key5: "pressed (hold_key5 k) = (if k < 3 then 32 else 0)"
  by (simp add: pressed_def hold_key5_def)

lemma two_buttons_run:
  "main_body (main_init (power_on two_buttons)) =
     Some ((main_init (power_on two_buttons))
             \<lparr>reads := 3, out := [Sleep, Pause 1000] @ repeat_cycle\<rparr>)"
proof -
  let ?s = "main_init (power_on two_buttons)"
  have s: "pinb ?s = two_buttons" "reads ?s = 0" "out ?s = []"
    by (simp_all add: main_init_def power_on_def)
  have "main_body ?s = Some (?s\<lparr>reads := reads ?s + 1 + 2,
             out := out ?s @ [Sleep, Pause 1000] @ concat (replicate 1 repeat_cycle)\<rparr>)"
    by (rule main_body_unmapped) (simp_all add: led_off_after_init s pressed_two_buttons)
  then show ?thesis by (simp add: s)
qed

lemma hold_key5_run:
  "map_option out (main_body (main_init (power_on hold_key5))) =
     Some ([Sleep, Pause 1000] @ start_marker @ byte_signal 4 @ byte_signal 251 @
           byte_signal 8 @ byte_signal (NOT 8) @ [Burst 562, Pause 557] @
           repeat_cycle @ repeat_cycle)"
proof -
  let ?s = "main_init (power_on hold_key5)"
  let ?s4 = "sendCode 8 (?s\<lparr>out := out ?s @ [Sleep, Pause 1000], reads := Suc (reads ?s)\<rparr>)"
  have s: "pinb ?s = hold_key5" "reads ?s = 0" "out ?s = []" "\<not> bit (DDRB ?s) (Suc 0)"
    by (simp_all add: main_init_def power_on_def)
  have "main_body ?s = repeat_loop ?s4"
    by (simp add: main_body_eq s pressed_hold_key5 Let_def)
  moreover have "repeat_loop ?s4 =
     repeat_loop (?s4\<lparr>reads := reads ?s4 + 2, out := out ?s4 @ concat (replicate 2 repeat_cycle)\<rparr>)"
    by (rule repeat_loop_held) (simp_all add: sendCode_eq s pressed_hold_key5 led)
  moreover have "repeat_loop (?s4\<lparr>reads := reads ?s4 + 2,
       out := out ?s4 @ concat (replicate 2 repeat_cycle)\<rparr>) =
     Some (?s4\<lparr>reads := reads ?s4 + 3, out := out ?s4 @ concat (replicate 2 repeat_cycle)\<rparr>)"
    by (subst repeat_loop_released) (simp_all add: sendCode_eq s pressed_hold_key5)
  ultimately show ?thesis
    by (simp add: sendCode_eq s numeral_2_eq_2)
qed

section \<open>The frame\<close>

text \<open>
  C1. For every command code \<open>c\<close>, \<open>sendCode c\<close> adds to the events, in this order:
  the start marker (burst 9000, pause 4500), the eight bits of the address, of the
  complemented address, of \<open>c\<close> and of the complemented \<open>c\<close>, and then one stop burst of
  562 microseconds with its pause of 557. Nothing follows the stop burst.
\<close>

theorem sendCode_frame:
  "out (sendCode c s) =
     out s @ start_marker @ byte_signal (ucast ADDR) @ byte_signal (NOT (ucast ADDR)) @
     byte_signal c @ byte_signal (NOT c) @ [Burst 562, Pause 557]"
  by (simp add: sendCode_eq addr_byte complement_4)

text \<open>
  C2. In the events of every frame, the byte sent after the address and the byte sent
  after the command are the bitwise complements of the address and of the command at 8
  bits, \<^verbatim>\<open>~v & 0xFF\<close>: the C expression \<^verbatim>\<open>~code\<close>, computed on the promoted
  \<^verbatim>\<open>int\<close> and converted back to \<^verbatim>\<open>uint8_t\<close>, is \<open>NOT c\<close>, with the value
  \<open>255 - c\<close>. It is never the arithmetic negation \<open>- c\<close>, whose signal is a different
  one, so the events of a frame are never those with \<open>- c\<close> in the fourth byte.
\<close>

theorem inverse_is_complement:
  "out (sendCode c s) =
     out s @ start_marker @
     byte_signal (ucast ADDR) @ byte_signal (ucast (NOT ADDR AND 0xFF)) @
     byte_signal c @ byte_signal (ucast (NOT (ucast c :: c_int) AND 0xFF)) @
     [Burst 562, Pause 557]
   \<and> out (sendCode c s) \<noteq>
     out s @ start_marker @
     byte_signal (ucast ADDR) @ byte_signal (NOT (ucast ADDR)) @
     byte_signal c @ byte_signal (- c) @ [Burst 562, Pause 557]
   \<and> byte_signal (NOT c) \<noteq> byte_signal (- c)
   \<and> byte_signal (NOT (ucast ADDR)) \<noteq> byte_signal (- ucast ADDR)
   \<and> sendCode c s =
     normalPulse (sendByte (NOT c) (sendByte c
       (sendByte (NOT (ucast ADDR)) (sendByte (ucast ADDR) (startPulse s)))))
   \<and> NOT c = (ucast (NOT (ucast c :: c_int) AND 0xFF) :: uint8_t)
   \<and> NOT (ucast ADDR) = (ucast (NOT ADDR AND 0xFF) :: uint8_t)
   \<and> unat (NOT c) = 255 - unat c
   \<and> NOT c \<noteq> - c
   \<and> NOT (ucast ADDR :: uint8_t) \<noteq> - ucast ADDR"
proof -
  have m: "(0xFF :: c_int) = mask 8" by (simp add: mask_eq_exp_minus_1)
  have 1: "NOT c = (ucast (NOT (ucast c :: c_int) AND 0xFF) :: uint8_t)"
    unfolding m by (rule bit_word_eqI) (auto simp: bit_simps)
  have 2: "NOT (ucast ADDR) = (ucast (NOT ADDR AND 0xFF) :: uint8_t)"
    by (simp add: ADDR_def)
  have 3: "unat (NOT c) = 255 - unat c"
    by (rule complement_value)
  have 4: "NOT w \<noteq> - w" for w :: uint8_t
    by (simp add: minus_eq_not_plus_1)
  have 5: "sendCode c s =
     normalPulse (sendByte (NOT c) (sendByte c
       (sendByte (NOT (ucast ADDR)) (sendByte (ucast ADDR) (startPulse s)))))"
    by (simp add: sendCode_def Let_def inverse_promoted addr_byte addr_inverse_byte
        complement_4)
  have "out (sendCode c s) =
     out s @ start_marker @
     byte_signal (ucast ADDR) @ byte_signal (NOT (ucast ADDR)) @
     byte_signal c @ byte_signal (NOT c) @ [Burst 562, Pause 557]"
    by (simp add: sendCode_eq addr_byte complement_4)
  then have 6: "out (sendCode c s) =
     out s @ start_marker @
     byte_signal (ucast ADDR) @ byte_signal (ucast (NOT ADDR AND 0xFF)) @
     byte_signal c @ byte_signal (ucast (NOT (ucast c :: c_int) AND 0xFF)) @
     [Burst 562, Pause 557]"
    by (simp only: 1 [symmetric] 2 [symmetric])
  have 7: "byte_signal (NOT w) \<noteq> byte_signal (- w)" for w :: uint8_t
    using byte_signal_inj[of "NOT w" "- w"] 4[of w] by blast
  have 8: "out (sendCode c s) \<noteq>
     out s @ start_marker @
     byte_signal (ucast ADDR) @ byte_signal (NOT (ucast ADDR)) @
     byte_signal c @ byte_signal (- c) @ [Burst 562, Pause 557]"
    using 7[of c] by (simp add: sendCode_eq addr_byte complement_4)
  from 1 2 3 4 5 6 7 8 show ?thesis by blast
qed

text \<open>
  C3. \<open>sendByte v\<close> sends the bits of \<open>v\<close> least significant first: the \<open>i\<close>-th
  bit signal, for \<open>i\<close> from 0 to 7, is that of \<^verbatim>\<open>(v >> i) & 1\<close>. For
  \<^verbatim>\<open>0b10110000\<close> the bits sent are 0, 0, 0, 0, 1, 1, 0, 1.
\<close>

theorem sendByte_lsb_first:
  "out (sendByte v s) =
     out s @ concat (map (\<lambda>i. bit_signal (drop_bit i v AND 1 = 1)) [0..<8])
   \<and> out (sendByte 0b10110000 s) =
     out s @ concat (map bit_signal [False, False, False, False, True, True, False, True])"
proof -
  have "bit v i \<longleftrightarrow> drop_bit i v AND 1 = 1" for i
    by (simp add: and_one_eq bit_iff_odd_drop_bit mod_2_eq_odd)
  then have "out (sendByte v s) =
     out s @ concat (map (\<lambda>i. bit_signal (drop_bit i v AND 1 = 1)) [0..<8])"
    by (simp add: sendByte_eq byte_signal_def)
  moreover have "map (bit (0b10110000 :: uint8_t)) [0..<8] =
     [False, False, False, False, True, True, False, True]"
    by (simp add: upt_8)
  then have "out (sendByte 0b10110000 s) =
     out s @ concat (map bit_signal [False, False, False, False, True, True, False, True])"
    by (simp only: sendByte_eq byte_signal_bits) simp
  ultimately show ?thesis by blast
qed

text \<open>
  C4. Every data bit is a burst of 562 microseconds, whatever its value. Only the silence
  after it differs: 557 microseconds after a 0 (the source's compensated value for the
  nominal 562.5) and 557 + 1120 = 1677 after a 1 (nominally 1687.5).
\<close>

theorem bit_timing:
  "pulses (out (sendByte v (s\<lparr>out := []\<rparr>))) =
     map (\<lambda>i. (562, if bit v i then 557 + 1120 else 557)) [0..<8]"
  by (simp add: sendByte_eq pulses_byte_signal_end)

text \<open>
  C9. The bit loop of \<open>sendByte\<close> is a total function (its counter decreases to 0) and
  emits one pulse for each pass, as many as the counter it starts from: 8 for a byte. A
  full frame has 34 bursts: the leading burst of 9000, 32 data bursts of 562 and the stop
  burst of 562.
\<close>

theorem burst_counts:
  "length (pulses (out (sendByte_loop i v (s\<lparr>out := []\<rparr>)))) = unat i
   \<and> length (pulses (out (sendByte v (s\<lparr>out := []\<rparr>)))) = 8
   \<and> map fst (pulses (out (sendCode c (s\<lparr>out := []\<rparr>)))) = 9000 # replicate 32 562 @ [562]
   \<and> length (pulses (out (sendCode c (s\<lparr>out := []\<rparr>)))) = 34"
proof -
  have "map fst (pulses (out (sendCode c (s\<lparr>out := []\<rparr>)))) = 9000 # replicate 32 562 @ [562]"
    unfolding pulses_sendCode
    by (simp add: comp_def map_replicate_const flip: replicate_add)
  moreover have "length (pulses (out (sendCode c (s\<lparr>out := []\<rparr>)))) = 34"
    unfolding pulses_sendCode by simp
  moreover have "length (pulses (out (sendByte v (s\<lparr>out := []\<rparr>)))) = 8"
    by (simp add: sendByte_def sendByte_loop_count)
  ultimately show ?thesis by (simp add: sendByte_loop_count)
qed

text \<open>
  C10. The stop burst is what \<open>normalPulse\<close> emits, the same events as the burst of a
  data bit: a burst of 562 followed by a pause of 557 that is part of the operation. It is
  the last thing \<open>sendCode\<close> emits before it returns, and in \<open>repeatCode\<close> it comes
  right after the repeat marker and before the post-repeat delay.
\<close>

theorem stop_burst_is_normalPulse:
  "out (normalPulse s) = out s @ [Burst 562, Pause 557]
   \<and> out (sendCode c s) =
       out (sendByte (NOT c) (sendByte c (sendByte (NOT (ucast ADDR))
         (sendByte (ucast ADDR) (startPulse s))))) @ out (normalPulse (s\<lparr>out := []\<rparr>))
   \<and> out (repeatCode s) =
       out (repeatPulse (delay_ms 40 s)) @ out (normalPulse (s\<lparr>out := []\<rparr>)) @ [Pause 56000]
   \<and> out (sendByte v s) =
       out s @ concat (map (\<lambda>i. out (normalPulse (s\<lparr>out := []\<rparr>)) @
                                  (if bit v i then [Pause 1120] else [])) [0..<8])
   \<and> last (pulses (out (sendCode c (s\<lparr>out := []\<rparr>)))) = (562, 557)"
proof -
  have 1: "out (normalPulse s) = out s @ [Burst 562, Pause 557]" for s
    by (simp add: normalPulse_eq)
  have 2: "out (sendCode c s) =
       out (sendByte (NOT c) (sendByte c (sendByte (NOT (ucast ADDR))
         (sendByte (ucast ADDR) (startPulse s))))) @ out (normalPulse (s\<lparr>out := []\<rparr>))"
    by (simp add: sendCode_eq sendByte_eq startPulse_eq normalPulse_eq addr_byte complement_4
        start_marker_def)
  have 3: "out (repeatCode s) =
       out (repeatPulse (delay_ms 40 s)) @ out (normalPulse (s\<lparr>out := []\<rparr>)) @ [Pause 56000]"
    by (simp add: repeatCode_def delay_ms_def delay_us_def repeatPulse_eq normalPulse_eq led)
  have 4: "out (sendByte v s) =
       out s @ concat (map (\<lambda>i. out (normalPulse (s\<lparr>out := []\<rparr>)) @
                                  (if bit v i then [Pause 1120] else [])) [0..<8])"
    by (simp add: sendByte_eq byte_signal_def bit_signal_def normalPulse_eq)
  have 5: "last (pulses (out (sendCode c (s\<lparr>out := []\<rparr>)))) = (562, 557)"
    unfolding pulses_sendCode by simp
  from 1 2 3 4 5 show ?thesis by blast
qed

section \<open>The main loop\<close>

text \<open>
  C5, as the code has it. When the sampled buttons match none of the five single-button
  patterns, no frame is sent: after the debounce delay the loop goes straight to the repeat
  loop. That loop emits one repeat frame for every check at which some line still reads
  low, so buttons that stay down do cause repeat frames, and it ends at the first check at
  which all lines read high; the pass is then over and the next one starts by going to
  sleep. The LED is off when the pass starts, as it is after \<open>main_init\<close> and after every
  pass (\<open>led_off_after_init\<close>, \<open>main_body_led_off\<close>).
\<close>

theorem unmapped_mask_sends_no_frame:
  assumes "\<not> bit (DDRB s) 1"
    and "ucast (pressed (pinb s (reads s))) \<notin> {1, 4, 8, 16, 32 :: uint8_t}"
    and "\<forall>j<k. pressed (pinb s (Suc (reads s) + j)) \<noteq> 0"
    and "pressed (pinb s (Suc (reads s) + k)) = 0"
  shows "main_body s =
     Some (s\<lparr>reads := reads s + k + 2,
             out := out s @ [Sleep, Pause 1000] @ concat (replicate k repeat_cycle)\<rparr>)"
  using assms by (intro main_body_unmapped) simp_all

text \<open>The theorem at the first scenario: two buttons down, one repeat frame.\<close>

theorem unmapped_mask_witness:
  "\<not> bit (DDRB (main_init (power_on two_buttons))) 1
   \<and> ucast (pressed (two_buttons 0)) = (5 :: uint8_t)
   \<and> pressed (two_buttons 1) \<noteq> 0
   \<and> pressed (two_buttons 2) = 0
   \<and> map_option out (main_body (main_init (power_on two_buttons))) =
       Some ([Sleep, Pause 1000] @ repeat_cycle)"
proof -
  let ?s = "main_init (power_on two_buttons)"
  have s: "pinb ?s = two_buttons" "reads ?s = 0" "out ?s = []"
    by (simp_all add: main_init_def power_on_def)
  have "main_body ?s = Some (?s\<lparr>reads := reads ?s + 1 + 2,
             out := out ?s @ [Sleep, Pause 1000] @ concat (replicate 1 repeat_cycle)\<rparr>)"
    by (rule unmapped_mask_sends_no_frame)
      (simp_all add: led_off_after_init s pressed_two_buttons)
  then show ?thesis
    by (simp add: s led_off_after_init pressed_two_buttons)
qed

text \<open>
  The claim that nothing at all is transmitted for an unmapped combination fails there:
  with buttons 1 and 2 down (sampled \<^verbatim>\<open>0b00000101\<close>) and still down at the first check
  of the repeat loop, the pass emits a repeat frame.
\<close>

theorem unmapped_mask_counterexample:
  "ucast (pressed (two_buttons 0)) = (0b00000101 :: uint8_t)
   \<and> map_option out (main_body (main_init (power_on two_buttons))) =
       Some [Sleep, Pause 1000, Pause 40000, Burst 9000, Pause 2250, Burst 562, Pause 557,
             Pause 56000]"
  by (simp add: two_buttons_run pressed_two_buttons repeat_cycle_def repeat_marker_def)

text \<open>
  C6. While the port reads some line low at \<open>k\<close> successive checks and all lines high
  at the next, the repeat loop emits exactly \<open>k\<close> passes of \<open>repeatCode\<close> and returns:
  nothing is emitted after the check that sees the release. A pass is the delay of 40 ms,
  the repeat marker (burst 9000, pause 2250), the stop burst (burst 562, pause 557) and the
  delay of 56 ms. The leading bursts of successive repeat frames start 108369 microseconds
  apart, which is the 40 ms, the 12369 microseconds of the repeat frame and the 56 ms.
\<close>

theorem repeat_cadence:
  assumes "\<not> bit (DDRB s) 1"
    and "\<forall>j<k. pressed (pinb s (reads s + j)) \<noteq> 0"
    and "pressed (pinb s (reads s + k)) = 0"
  shows "repeat_loop s =
       Some (s\<lparr>reads := reads s + k + 1, out := out s @ concat (replicate k repeat_cycle)\<rparr>)
   \<and> repeat_cycle = [Pause 40000, Burst 9000, Pause 2250, Burst 562, Pause 557, Pause 56000]
   \<and> lead_starts t (concat (replicate k repeat_cycle)) =
       map (\<lambda>j. t + 40000 + j * 108369) [0..<k]
   \<and> duration repeat_cycle =
       40000 + duration (repeat_marker @ [Burst 562, Pause 557]) + 56000
   \<and> duration repeat_cycle = 108369"
proof -
  have "repeat_loop s =
       Some (s\<lparr>reads := reads s + k + 1, out := out s @ concat (replicate k repeat_cycle)\<rparr>)"
    using assms by (intro repeat_loop_held_released) simp_all
  moreover have "repeat_cycle =
       [Pause 40000, Burst 9000, Pause 2250, Burst 562, Pause 557, Pause 56000]"
    by (simp add: repeat_cycle_def repeat_marker_def)
  moreover have "duration repeat_cycle =
       40000 + duration (repeat_marker @ [Burst 562, Pause 557]) + 56000"
    by (simp add: repeat_cycle_def repeat_marker_def)
  moreover have "duration repeat_cycle = 108369"
    by (simp add: repeat_cycle_def repeat_marker_def)
  ultimately show ?thesis
    using lead_starts_cycles[of t k] by blast
qed

text \<open>The theorem at the second port scenario, read from the start: three repeat frames.\<close>

theorem repeat_cadence_witness:
  "\<not> bit (DDRB (main_init (power_on hold_key5))) 1
   \<and> pressed (hold_key5 0) \<noteq> 0 \<and> pressed (hold_key5 1) \<noteq> 0 \<and> pressed (hold_key5 2) \<noteq> 0
   \<and> pressed (hold_key5 3) = 0
   \<and> map_option out (repeat_loop (main_init (power_on hold_key5))) =
       Some (repeat_cycle @ repeat_cycle @ repeat_cycle)
   \<and> lead_starts 0 (repeat_cycle @ repeat_cycle @ repeat_cycle) = [40000, 148369, 256738]"
proof -
  let ?s = "main_init (power_on hold_key5)"
  have s: "pinb ?s = hold_key5" "reads ?s = 0" "out ?s = []"
    by (simp_all add: main_init_def power_on_def)
  have k: "\<forall>j<3. pressed (pinb ?s (reads ?s + j)) \<noteq> 0"
    by (simp add: s pressed_hold_key5)
  have off: "\<not> bit (DDRB ?s) 1" by (simp add: led_off_after_init)
  have rel: "pressed (pinb ?s (reads ?s + 3)) = 0" by (simp add: s pressed_hold_key5)
  from repeat_cadence[OF off k rel, of 0] show ?thesis
    by (simp add: s led_off_after_init pressed_hold_key5 numeral_3_eq_3 upt_rec[of 0])
qed

text \<open>
  C8 is about the order of a pass and about the time asleep. The order is that of
  \<open>main_body_eq\<close>, and the loop has no exit (\<open>main_loop_never_returns\<close>). That the
  processor, once asleep, stays asleep until a button line changes is a property of the
  power-down mode and of the pin change interrupt, which the source only switches on; the
  model records the call of \<^verbatim>\<open>sleep_mode()\<close> and says nothing about its length.
\<close>

section \<open>The carrier\<close>

text \<open>
  C7, as the code has it. \<open>TOP\<close> is 31, the value of 1200000 / 38000 - 1 = 30.58 rounded
  to the nearest integer, so the period of \<open>TOP + 1\<close> ticks is that of a 37.5 kHz carrier;
  \<open>DUTY\<close> is 7, so that the on-time of \<open>DUTY + 1\<close> ticks is a quarter of the period.
  \<open>main_init\<close> assigns them to the compare registers, and no pass of the main loop
  changes these or the timer control registers.
\<close>

theorem carrier_constants:
  "OCR0A (main_init s) = ucast TOP \<and> OCR0B (main_init s) = ucast DUTY
   \<and> unat TOP = 31 \<and> unat DUTY = 7
   \<and> \<bar>real (unat TOP) - (1200000 / 38000 - 1)\<bar> < 1 / 2
   \<and> 4 * (unat DUTY + 1) = unat TOP + 1
   \<and> 1200000 = 37500 * (unat TOP + 1)
   \<and> (main_body s = Some s' \<longrightarrow>
        OCR0A s' = OCR0A s \<and> OCR0B s' = OCR0B s \<and> TCCR0A s' = TCCR0A s \<and> TCCR0B s' = TCCR0B s)"
proof -
  have top: "unat TOP = 31" and duty: "unat DUTY = 7"
    by (simp_all add: TOP_def DUTY_def)
  have "OCR0A (main_init s) = ucast TOP \<and> OCR0B (main_init s) = ucast DUTY"
    by (simp add: main_init_def)
  moreover have "\<bar>real (unat TOP) - (1200000 / 38000 - 1)\<bar> < 1 / 2"
    by (simp add: top)
  moreover have "4 * (unat DUTY + 1) = unat TOP + 1"
    by (simp add: top duty)
  moreover have "1200000 = 37500 * (unat TOP + 1)"
    by (simp add: top)
  moreover have "main_body s = Some s' \<longrightarrow>
        OCR0A s' = OCR0A s \<and> OCR0B s' = OCR0B s \<and> TCCR0A s' = TCCR0A s \<and> TCCR0B s' = TCCR0B s"
    using main_body_keeps_timer[of s s'] by blast
  ultimately show ?thesis
    using top duty by blast
qed

text \<open>The theorem at the first scenario: the compare registers after a pass.\<close>

theorem carrier_constants_witness:
  "map_option OCR0A (main_body (main_init (power_on two_buttons))) = Some 31
   \<and> map_option OCR0B (main_body (main_init (power_on two_buttons))) = Some 7"
proof -
  let ?s = "main_init (power_on two_buttons)"
  let ?s' = "?s\<lparr>reads := 3, out := [Sleep, Pause 1000] @ repeat_cycle\<rparr>"
  have run: "main_body ?s = Some ?s'" by (rule two_buttons_run)
  have init: "OCR0A ?s = 31" "OCR0B ?s = 7"
    by (simp_all add: main_init_def TOP_def DUTY_def)
  from carrier_constants[of ?s ?s'] run
  have "OCR0A ?s' = OCR0A ?s \<and> OCR0B ?s' = OCR0B ?s" by blast
  with run init show ?thesis by simp
qed

text \<open>
  Taken as an equation the formula fails: with the truncating division of C it gives 30,
  and exactly it is not an integer.
\<close>

theorem carrier_formula_counterexample:
  "unat TOP \<noteq> 1200000 div 38000 - 1 \<and> real (unat TOP) \<noteq> 1200000 / 38000 - 1"
  by (simp add: TOP_def)

end
